theory Spec2Isabelle
  imports Main "HOL-Library.Sublist"
begin

section \<open>Strings\<close>

text \<open>
  A Python \<open>str\<close> is the list of its code points. \<open>lit\<close> gives the \<open>str\<close> of a literal
  whose characters are written as \<^typ>\<open>char\<close>s.
\<close>

type_synonym str = "nat list"

definition lit :: "string \<Rightarrow> str" where
  "lit s = map of_char s"

text \<open>
  \<open>str.lower\<close> and \<open>str.title\<close> read the Unicode character database: the full lower
  case and title case of a code point (one code point or several) and the properties
  Cased and Case_Ignorable. The database is the parameter \<open>u\<close> of the model. For the
  ASCII code points its entries are written out: the capital letters 65 to 90 and the
  small letters 97 to 122 are cased and 32 apart, and the case-ignorable ones are the
  apostrophe, the full stop, the colon, the circumflex and the grave accent.
\<close>

record ucd =
  to_lower_full :: "nat \<Rightarrow> nat list"
  to_title_full :: "nat \<Rightarrow> nat list"
  is_cased :: "nat \<Rightarrow> bool"
  is_case_ignorable :: "nat \<Rightarrow> bool"

definition lower_full :: "ucd \<Rightarrow> nat \<Rightarrow> nat list" where
  "lower_full u c =
     (if c < 128 then [if 65 \<le> c \<and> c \<le> 90 then c + 32 else c] else to_lower_full u c)"

definition title_full :: "ucd \<Rightarrow> nat \<Rightarrow> nat list" where
  "title_full u c =
     (if c < 128 then [if 97 \<le> c \<and> c \<le> 122 then c - 32 else c] else to_title_full u c)"

definition cased :: "ucd \<Rightarrow> nat \<Rightarrow> bool" where
  "cased u c =
     (if c < 128 then (65 \<le> c \<and> c \<le> 90) \<or> (97 \<le> c \<and> c \<le> 122) else is_cased u c)"

definition case_ignorable :: "ucd \<Rightarrow> nat \<Rightarrow> bool" where
  "case_ignorable u c =
     (if c < 128 then c = 39 \<or> c = 46 \<or> c = 58 \<or> c = 94 \<or> c = 96
      else is_case_ignorable u c)"

text \<open>
  The one code point whose lower case depends on its neighbours is the capital sigma,
  931: it becomes the final small sigma 962 when, case-ignorable code points skipped,
  a cased code point comes before it and none comes after it, and the small sigma 963
  otherwise. \<open>prev\<close> holds the code points before the sigma, the nearest first, and
  \<open>rest\<close> those after it.
\<close>

definition handle_capital_sigma :: "ucd \<Rightarrow> str \<Rightarrow> str \<Rightarrow> nat" where
  "handle_capital_sigma u prev rest =
     (let final_sigma =
            (case dropWhile (case_ignorable u) prev of
               [] \<Rightarrow> False
             | c # cs \<Rightarrow> cased u c);
          final_sigma =
            (if final_sigma then
               (case dropWhile (case_ignorable u) rest of
                  [] \<Rightarrow> True
                | c # cs \<Rightarrow> \<not> cased u c)
             else False)
      in if final_sigma then 962 else 963)"

definition lower_ucs4 :: "ucd \<Rightarrow> str \<Rightarrow> nat \<Rightarrow> str \<Rightarrow> str" where
  "lower_ucs4 u prev c rest =
     (if c = 931 then [handle_capital_sigma u prev rest] else lower_full u c)"

fun do_lower :: "ucd \<Rightarrow> str \<Rightarrow> str \<Rightarrow> str" where
  "do_lower u prev [] = []"
| "do_lower u prev (c # rest) =
     lower_ucs4 u prev c rest @ do_lower u (c # prev) rest"

definition lower :: "ucd \<Rightarrow> str \<Rightarrow> str" where
  "lower u s = do_lower u [] s"

text \<open>
  \<open>str.title\<close>: a code point after a cased one is lower-cased, any other is
  title-cased.
\<close>

fun do_title :: "ucd \<Rightarrow> str \<Rightarrow> bool \<Rightarrow> str \<Rightarrow> str" where
  "do_title u prev previous_is_cased [] = []"
| "do_title u prev previous_is_cased (c # rest) =
     (if previous_is_cased then lower_ucs4 u prev c rest else title_full u c)
       @ do_title u (c # prev) (cased u c) rest"

definition str_title :: "ucd \<Rightarrow> str \<Rightarrow> str" where
  "str_title u s = do_title u [] False s"

text \<open>
  Python's \<open>sub in s\<close> on strings: \<open>sub\<close> occurs in \<open>s\<close> as a contiguous run, found
  by trying every start position from the left.
\<close>

fun occurs_in :: "str \<Rightarrow> str \<Rightarrow> bool" where
  "occurs_in sub [] = (sub = [])"
| "occurs_in sub (c # cs) = (prefix sub (c # cs) \<or> occurs_in sub cs)"

section \<open>The note classes\<close>

text \<open>
  The three classes \<open>Note\<close>, \<open>CategorizedNote\<close> and \<open>TaggedCategorizedNote\<close>, each with
  the fields its constructor sets, typed as the constructors annotate them. The
  subclass relation shows in \<open>isinstance_CategorizedNote\<close>: a tagged note is a
  categorized note too. The attribute \<open>category\<close> exists on categorized notes only.
\<close>

datatype note_obj =
    Note int str str
  | CategorizedNote int str str str
  | TaggedCategorizedNote int str str str "str list"

fun get_id :: "note_obj \<Rightarrow> int" where
  "get_id (Note i t c) = i"
| "get_id (CategorizedNote i t c cat) = i"
| "get_id (TaggedCategorizedNote i t c cat tags) = i"

fun title :: "note_obj \<Rightarrow> str" where
  "title (Note i t c) = t"
| "title (CategorizedNote i t c cat) = t"
| "title (TaggedCategorizedNote i t c cat tags) = t"

fun content :: "note_obj \<Rightarrow> str" where
  "content (Note i t c) = c"
| "content (CategorizedNote i t c cat) = c"
| "content (TaggedCategorizedNote i t c cat tags) = c"

fun category :: "note_obj \<Rightarrow> str option" where
  "category (Note i t c) = None"
| "category (CategorizedNote i t c cat) = Some cat"
| "category (TaggedCategorizedNote i t c cat tags) = Some cat"

fun isinstance_CategorizedNote :: "note_obj \<Rightarrow> bool" where
  "isinstance_CategorizedNote (Note i t c) = False"
| "isinstance_CategorizedNote (CategorizedNote i t c cat) = True"
| "isinstance_CategorizedNote (TaggedCategorizedNote i t c cat tags) = True"

text \<open>
  The dictionary that \<open>to_dict\<close> builds and that a stored record is: the keys the
  program writes and reads, each present or absent, with values of the stored types.
\<close>

record dict =
  key_id :: "int option"
  key_title :: "str option"
  key_content :: "str option"
  key_category :: "str option"
  key_tags :: "str list option"

definition Note_to_dict :: "int \<Rightarrow> str \<Rightarrow> str \<Rightarrow> dict" where
  "Note_to_dict i t c =
     \<lparr>key_id = Some i, key_title = Some t, key_content = Some c,
      key_category = None, key_tags = None\<rparr>"

definition CategorizedNote_to_dict :: "int \<Rightarrow> str \<Rightarrow> str \<Rightarrow> str \<Rightarrow> dict" where
  "CategorizedNote_to_dict i t c cat = (Note_to_dict i t c) \<lparr>key_category := Some cat\<rparr>"

fun to_dict :: "note_obj \<Rightarrow> dict" where
  "to_dict (Note i t c) = Note_to_dict i t c"
| "to_dict (CategorizedNote i t c cat) = CategorizedNote_to_dict i t c cat"
| "to_dict (TaggedCategorizedNote i t c cat tags) =
     (CategorizedNote_to_dict i t c cat) \<lparr>key_tags := Some tags\<rparr>"

section \<open>The file system and the terminal\<close>

text \<open>
  What the organizer touches outside itself. A path holds no file, or a file whose
  bytes are the JSON text of a list of records, or a text that \<open>json.load\<close> rejects
  with \<open>JSONDecodeError\<close> (the empty text and a text cut short among them), or bytes
  that are no text in the encoding of the locale. The characters of a JSON text are
  not modelled: \<open>json.dump\<close> stores the list of dictionaries and \<open>json.load\<close> returns
  it, integers and strings unchanged; JSON texts of another shape than a list of
  records are left out.

  Opening a path can fail with an \<open>IOError\<close>, for reading (\<open>unreadable\<close>) or for
  writing (\<open>unwritable\<close>). Opening for writing empties the file; \<open>write_error\<close> marks
  the paths where the writing that follows fails with an \<open>IOError\<close> and leaves a
  text cut short. \<open>write_log\<close> lists the paths that \<open>_save_notes\<close> opened or tried to
  open for writing, in order, and \<open>stdout\<close> the messages printed (colours and layout
  left out); the terminal is taken to accept every string.
\<close>

datatype file_content = Records "dict list" | Malformed | Undecodable

datatype message =
    ErrorLoading
  | ErrorSaving
  | AddedMsg str str
  | HeaderCategory str
  | HeaderAll
  | NoNotesFound
  | Display note_obj
  | Separator
  | NoMatch str
  | HeaderSearch str
  | DeletedMsg int
  | NotFoundMsg int

record world =
  files :: "string \<Rightarrow> file_content option"
  unreadable :: "string \<Rightarrow> bool"
  unwritable :: "string \<Rightarrow> bool"
  write_error :: "string \<Rightarrow> bool"
  write_log :: "string list"
  stdout :: "message list"

definition print :: "message \<Rightarrow> world \<Rightarrow> world" where
  "print m w = w \<lparr>stdout := stdout w @ [m]\<rparr>"

fun print_all :: "message list \<Rightarrow> world \<Rightarrow> world" where
  "print_all [] w = w"
| "print_all (m # ms) w = print_all ms (print m w)"

section \<open>NoteOrganizer\<close>

record organizer =
  file_path :: string
  self_notes :: "note_obj list"

datatype error = KeyError string | UnicodeDecodeError

definition getitem :: "'a option \<Rightarrow> string \<Rightarrow> error + 'a" where
  "getitem v k = (case v of None \<Rightarrow> Inl (KeyError k) | Some x \<Rightarrow> Inr x)"

text \<open>
  One turn of the loop of \<open>_load_notes\<close>: a record with a category becomes a
  \<open>CategorizedNote\<close>, any other a \<open>Note\<close>; a missing key raises \<open>KeyError\<close>, which
  \<open>_load_notes\<close> does not catch.
\<close>

definition load_item :: "dict \<Rightarrow> error + note_obj" where
  "load_item item =
     (if key_category item \<noteq> None then
        (case getitem (key_id item) ''id'' of Inl e \<Rightarrow> Inl e | Inr i \<Rightarrow>
         case getitem (key_title item) ''title'' of Inl e \<Rightarrow> Inl e | Inr t \<Rightarrow>
         case getitem (key_content item) ''content'' of Inl e \<Rightarrow> Inl e | Inr c \<Rightarrow>
         case getitem (key_category item) ''category'' of Inl e \<Rightarrow> Inl e | Inr cat \<Rightarrow>
           Inr (CategorizedNote i t c cat))
      else
        (case getitem (key_id item) ''id'' of Inl e \<Rightarrow> Inl e | Inr i \<Rightarrow>
         case getitem (key_title item) ''title'' of Inl e \<Rightarrow> Inl e | Inr t \<Rightarrow>
         case getitem (key_content item) ''content'' of Inl e \<Rightarrow> Inl e | Inr c \<Rightarrow>
           Inr (Note i t c)))"

fun load_items :: "dict list \<Rightarrow> note_obj list \<Rightarrow> error + note_obj list" where
  "load_items [] acc = Inr acc"
| "load_items (item # data) acc =
     (case load_item item of Inl e \<Rightarrow> Inl e | Inr n \<Rightarrow> load_items data (acc @ [n]))"

text \<open>
  \<open>_load_notes\<close> catches \<open>IOError\<close> and \<open>JSONDecodeError\<close> only: bytes that cannot be
  decoded raise \<open>UnicodeDecodeError\<close> out of it, as a missing key raises \<open>KeyError\<close>.
\<close>

definition load_notes :: "string \<Rightarrow> world \<Rightarrow> (error + note_obj list) \<times> world" where
  "load_notes path w =
     (case files w path of
        None \<Rightarrow> (Inr [], w)
      | Some f \<Rightarrow>
          if unreadable w path then (Inr [], print ErrorLoading w)
          else (case f of
                  Undecodable \<Rightarrow> (Inl UnicodeDecodeError, w)
                | Malformed \<Rightarrow> (Inr [], print ErrorLoading w)
                | Records data \<Rightarrow> (load_items data [], w)))"

definition new_organizer :: "string \<Rightarrow> world \<Rightarrow> (error + organizer) \<times> world" where
  "new_organizer path w =
     (case load_notes path w of
        (Inl e, w') \<Rightarrow> (Inl e, w')
      | (Inr ns, w') \<Rightarrow> (Inr \<lparr>file_path = path, self_notes = ns\<rparr>, w'))"

definition save_notes :: "organizer \<Rightarrow> world \<Rightarrow> world" where
  "save_notes org w =
     (let w1 = w \<lparr>write_log := write_log w @ [file_path org]\<rparr>
      in if unwritable w (file_path org) then print ErrorSaving w1
         else if write_error w (file_path org)
         then print ErrorSaving (w1 \<lparr>files := (files w1) (file_path org \<mapsto> Malformed)\<rparr>)
         else w1 \<lparr>files := (files w1) (file_path org \<mapsto> Records (map to_dict (self_notes org)))\<rparr>)"

subsection \<open>Categorization\<close>

definition keyword_table :: "(str \<times> str list) list" where
  "keyword_table =
     [(lit ''Work'', map lit [''meeting'', ''project'', ''deadline'', ''report'', ''task'', ''work'']),
      (lit ''Personal'',
         map lit [''shopping'', ''gym'', ''family'', ''friends'', ''grocery'', ''personal'']),
      (lit ''Study'', map lit [''lecture'', ''assignment'', ''exam'', ''research'', ''study'', ''class'']),
      (lit ''Idea'', map lit [''idea'', ''concept'', ''brainstorm'', ''innovate''])]"

text \<open>The inner loop over one category's keywords, and the outer loop over the table.\<close>

fun scan_kws :: "str \<Rightarrow> str \<Rightarrow> str list \<Rightarrow> str option" where
  "scan_kws text cat [] = None"
| "scan_kws text cat (kw # kws) =
     (if occurs_in kw text then Some cat else scan_kws text cat kws)"

fun scan_table :: "str \<Rightarrow> (str \<times> str list) list \<Rightarrow> str option" where
  "scan_table text [] = None"
| "scan_table text ((cat, kws) # rest) =
     (case scan_kws text cat kws of Some c \<Rightarrow> Some c | None \<Rightarrow> scan_table text rest)"

text \<open>
  \<open>random.choice\<close> returns the element at an index that the generator draws below the
  length of the sequence. The generator is outside the model: its draw is the argument
  \<open>r\<close>, brought below the length.
\<close>

definition random_choice :: "nat \<Rightarrow> 'a list \<Rightarrow> 'a" where
  "random_choice r xs = xs ! (r mod length xs)"

definition categorize_note :: "ucd \<Rightarrow> nat \<Rightarrow> str \<Rightarrow> str \<Rightarrow> str" where
  "categorize_note u r ttl cnt =
     (let text = lower u (ttl @ lit '' '' @ cnt)
      in case scan_table text keyword_table of
           Some cat \<Rightarrow> cat
         | None \<Rightarrow> random_choice r (map fst keyword_table @ [lit ''General'']))"

subsection \<open>Operations\<close>

definition new_id :: "note_obj list \<Rightarrow> int" where
  "new_id ns = (if ns \<noteq> [] then get_id (last ns) + 1 else 1)"

definition add_note ::
  "ucd \<Rightarrow> nat \<Rightarrow> str \<Rightarrow> str \<Rightarrow> organizer \<times> world \<Rightarrow> organizer \<times> world" where
  "add_note u r ttl cnt s =
     (case s of (org, w) \<Rightarrow>
        let cat = categorize_note u r ttl cnt;
            new_note = CategorizedNote (new_id (self_notes org)) ttl cnt cat;
            org' = org \<lparr>self_notes := self_notes org @ [new_note]\<rparr>
        in (org', print (AddedMsg ttl cat) (save_notes org' w)))"

definition filtered_notes :: "ucd \<Rightarrow> str option \<Rightarrow> note_obj list \<Rightarrow> note_obj list" where
  "filtered_notes u flt ns =
     (case flt of
        None \<Rightarrow> ns
      | Some cat \<Rightarrow>
          if cat \<noteq> [] then
            filter (\<lambda>n. isinstance_CategorizedNote n \<and>
                        (case category n of None \<Rightarrow> False
                         | Some c \<Rightarrow> lower u c = lower u cat)) ns
          else ns)"

definition display_all :: "note_obj list \<Rightarrow> message list" where
  "display_all ns = concat (map (\<lambda>n. [Display n, Separator]) ns)"

definition view_notes :: "ucd \<Rightarrow> str option \<Rightarrow> organizer \<times> world \<Rightarrow> organizer \<times> world" where
  "view_notes u flt s =
     (case s of (org, w) \<Rightarrow>
        let shown = filtered_notes u flt (self_notes org);
            w1 = (case flt of
                    None \<Rightarrow> print HeaderAll w
                  | Some cat \<Rightarrow> if cat \<noteq> [] then print (HeaderCategory (str_title u cat)) w
                                else print HeaderAll w)
        in if shown = [] then (org, print NoNotesFound w1)
           else (org, print_all (display_all shown) w1))"



definition delete_note :: "int \<Rightarrow> organizer \<times> world \<Rightarrow> organizer \<times> world" where
  "delete_note note_id s =
     (case s of (org, w) \<Rightarrow>
        let original_count = length (self_notes org);
            org' = org \<lparr>self_notes := filter (\<lambda>n. get_id n \<noteq> note_id) (self_notes org)\<rparr>
        in if length (self_notes org') < original_count
           then (org', print (DeletedMsg note_id) (save_notes org' w))
           else (org', print (NotFoundMsg note_id) w))"

text \<open>A session: the menu's mutating choices, run one after the other.\<close>

datatype command = Add nat str str | Delete int

fun step :: "ucd \<Rightarrow> command \<Rightarrow> organizer \<times> world \<Rightarrow> organizer \<times> world" where
  "step u (Add r ttl cnt) s = add_note u r ttl cnt s"
| "step u (Delete i) s = delete_note i s"

fun run :: "ucd \<Rightarrow> command list \<Rightarrow> organizer \<times> world \<Rightarrow> organizer \<times> world" where
  "run u [] s = s"
| "run u (c # cs) s = run u cs (step u c s)"

text \<open>
  The IDs that the \<open>Add\<close> commands of a session assign, in order: each is the \<open>new_id\<close>
  that \<open>add_note\<close> computes in the state it runs in.
\<close>

fun assigned_ids :: "ucd \<Rightarrow> command list \<Rightarrow> organizer \<times> world \<Rightarrow> int list" where
  "assigned_ids u [] s = []"
| "assigned_ids u (Add r ttl cnt # cs) s =
     new_id (self_notes (fst s)) # assigned_ids u cs (step u (Add r ttl cnt) s)"
| "assigned_ids u (Delete i # cs) s = assigned_ids u cs (step u (Delete i) s)"

definition adds :: "(nat \<times> str \<times> str) list \<Rightarrow> command list" where
  "adds args = map (\<lambda>(r, ttl, cnt). Add r ttl cnt) args"

text \<open>An empty directory with nothing printed yet, where every path can be opened.\<close>

definition empty_world :: world where
  "empty_world =
     \<lparr>files = (\<lambda>p. None), unreadable = (\<lambda>p. False), unwritable = (\<lambda>p. False),
      write_error = (\<lambda>p. False), write_log = [], stdout = []\<rparr>"

text \<open>
  For examples with Greek letters: the entries of the Unicode character database for
  the capital letters alpha to omega (913 to 937 without the unassigned 930, each 32
  below its small letter) and the small letters 945 to 969 (the title case of the
  final sigma 962 is the capital sigma), all cased and none case-ignorable; the entries of all other code points are not consulted there.
\<close>

definition greek :: ucd where
  "greek =
     \<lparr>to_lower_full = (\<lambda>c. if 913 \<le> c \<and> c \<le> 937 \<and> c \<noteq> 930 then [c + 32] else [c]),
      to_title_full =
        (\<lambda>c. if c = 962 then [931] else if 945 \<le> c \<and> c \<le> 969 then [c - 32] else [c]),
      is_cased = (\<lambda>c. (913 \<le> c \<and> c \<le> 937 \<and> c \<noteq> 930) \<or> (945 \<le> c \<and> c \<le> 969)),
      is_case_ignorable = (\<lambda>c. False)\<rparr>"

section \<open>Notions of the specification\<close>




text \<open>
  The object that a saved note comes back as: a base \<open>Note\<close> if it had no category,
  a \<open>CategorizedNote\<close> otherwise (the tags of a tagged note are written to the file
  and not read back).
\<close>

definition reloaded :: "note_obj \<Rightarrow> note_obj" where
  "reloaded n =
     (case category n of
        None \<Rightarrow> Note (get_id n) (title n) (content n)
      | Some cat \<Rightarrow> CategorizedNote (get_id n) (title n) (content n) cat)"

text \<open>The five categories of the fallback, in the order of the list the code draws from.\<close>

definition pool :: "str list" where
  "pool = [lit ''Work'', lit ''Personal'', lit ''Study'', lit ''Idea'', lit ''General'']"

text \<open>The final small sigma read as a small sigma; every other code point is kept.\<close>

definition unsigma :: "nat \<Rightarrow> nat" where
  "unsigma c = (if c = 962 then 963 else c)"

section \<open>Auxiliary facts\<close>

subsection \<open>Substrings\<close>

lemma occurs_in_sublist: "occurs_in sub s = sublist sub s"
  by (induction s) (simp_all add: sublist_Cons_right)


lemma prefix_separator:
  assumes "prefix kw (sep # ys)" and "sep \<notin> set kw"
  shows "kw = []"
  using assms by (cases kw) auto

lemma sublist_separator:
  assumes "sublist kw (xs @ sep # ys)" and "sep \<notin> set kw"
  shows "sublist kw xs \<or> sublist kw ys"
proof -
  from assms(1) consider
      "sublist kw xs"
    | "sublist kw (sep # ys)"
    | xs1 xs2 where "kw = xs1 @ xs2" "suffix xs1 xs" "prefix xs2 (sep # ys)"
    by (auto simp: sublist_append)
  then show ?thesis
  proof cases
    case 1
    then show ?thesis by simp
  next
    case 2
    then have "prefix kw (sep # ys) \<or> sublist kw ys" by (simp add: sublist_Cons_right)
    then show ?thesis using prefix_separator[OF _ assms(2)] by auto
  next
    case 3
    from 3(1) assms(2) have "sep \<notin> set xs2" by simp
    with 3(3) have "xs2 = []" by (rule prefix_separator)
    with 3(1,2) show ?thesis by auto
  qed
qed

subsection \<open>Lower case\<close>

text \<open>
  With the final sigma read as a small sigma, lower-casing goes code point by code
  point, whatever the neighbours are.
\<close>

lemma do_lower_unsigma:
  "map unsigma (do_lower u prev s) =
     concat (map (\<lambda>c. if c = 931 then [963] else map unsigma (lower_full u c)) s)"
  by (induction s arbitrary: prev)
     (simp_all add: lower_ucs4_def handle_capital_sigma_def Let_def unsigma_def)

lemma lower_unsigma_append:
  "map unsigma (lower u (a @ b)) = map unsigma (lower u a) @ map unsigma (lower u b)"
  by (simp add: lower_def do_lower_unsigma)

lemma lower_unsigma_space: "map unsigma (lower u (lit '' '')) = [32]"
  by (simp add: lower_def lit_def lower_ucs4_def lower_full_def unsigma_def)

lemma unsigma_fixed: "963 \<notin> set v \<Longrightarrow> 962 \<notin> set v \<Longrightarrow> map unsigma v = v"
  by (induction v) (auto simp: unsigma_def)

lemma sublist_unsigma_iff:
  assumes "962 \<notin> set kw" and "963 \<notin> set kw"
  shows "sublist kw (map unsigma s) \<longleftrightarrow> sublist kw s"
proof
  assume "sublist kw (map unsigma s)"
  then obtain v where v: "sublist v s" "kw = map unsigma v"
    using sublist_map_rightE[of kw unsigma s] by metis
  have "x \<noteq> 962 \<and> x \<noteq> 963" if "x \<in> set v" for x
  proof -
    from that v(2) have "unsigma x \<in> set kw" by simp
    with assms(2) have "unsigma x \<noteq> 963" by metis
    then show ?thesis by (auto simp: unsigma_def)
  qed
  then have "map unsigma v = v" by (intro unsigma_fixed) auto
  with v show "sublist kw s" by simp
next
  assume "sublist kw s"
  then have "sublist (map unsigma kw) (map unsigma s)" by (rule map_mono_sublist)
  then show "sublist kw (map unsigma s)" using assms by (simp add: unsigma_fixed)
qed

lemma lit_below_256: "x \<in> set (lit s) \<Longrightarrow> x < 256"
  by (auto simp: lit_def)

lemma keyword_chars:
  assumes "(cat, kws) \<in> set keyword_table" and "kw \<in> set kws"
  shows "32 \<notin> set kw" and "962 \<notin> set kw" and "963 \<notin> set kw"
proof -
  from assms obtain k where k: "kw = lit k"
    by (auto simp: keyword_table_def)
  then show "962 \<notin> set kw" and "963 \<notin> set kw"
    using lit_below_256[of 962 k] lit_below_256[of 963 k] by auto
  from assms show "32 \<notin> set kw"
    by (auto simp: keyword_table_def lit_def)
qed

lemma keyword_in_text:
  assumes "(cat, kws) \<in> set keyword_table" and "kw \<in> set kws"
    and "sublist kw (lower u (ttl @ lit '' '' @ cnt))"
  shows "sublist kw (lower u (ttl @ cnt))"
proof -
  note k = keyword_chars[OF assms(1,2)]
  from assms(3) have "sublist kw (map unsigma (lower u (ttl @ lit '' '' @ cnt)))"
    by (simp only: sublist_unsigma_iff[OF k(2,3)])
  then have "sublist kw (map unsigma (lower u ttl) @ 32 # map unsigma (lower u cnt))"
    by (simp add: lower_unsigma_append lower_unsigma_space)
  then have "sublist kw (map unsigma (lower u ttl)) \<or> sublist kw (map unsigma (lower u cnt))"
    using k(1) by (rule sublist_separator)
  then have "sublist kw (map unsigma (lower u (ttl @ cnt)))"
    by (auto simp: lower_unsigma_append sublist_append)
  then show ?thesis by (simp only: sublist_unsigma_iff[OF k(2,3)])
qed








subsection \<open>The keyword table\<close>

lemma scan_kws_eq:
  "scan_kws text cat kws = (if \<exists>kw\<in>set kws. sublist kw text then Some cat else None)"
  by (induction kws) (simp_all add: occurs_in_sublist)

lemma scan_table_None:
  "scan_table text tbl = None \<longleftrightarrow> (\<forall>(cat, kws)\<in>set tbl. \<forall>kw\<in>set kws. \<not> sublist kw text)"
  by (induction tbl) (auto simp: scan_kws_eq split: if_splits)

lemma scan_table_first:
  assumes "\<exists>(cat, kws)\<in>set tbl. \<exists>kw\<in>set kws. sublist kw text"
  shows "\<exists>pre cat kws post. tbl = pre @ (cat, kws) # post
           \<and> (\<exists>kw\<in>set kws. sublist kw text)
           \<and> (\<forall>(cat', kws')\<in>set pre. \<forall>kw\<in>set kws'. \<not> sublist kw text)
           \<and> scan_table text tbl = Some cat"
  using assms
proof (induction tbl)
  case Nil
  then show ?case by simp
next
  case (Cons e tbl)
  obtain cat kws where e: "e = (cat, kws)" by (cases e)
  show ?case
  proof (cases "\<exists>kw\<in>set kws. sublist kw text")
    case True
    then have "scan_table text (e # tbl) = Some cat" unfolding e by (simp add: scan_kws_eq)
    with True e show ?thesis
      by (intro exI[of _ "[]"] exI[of _ cat] exI[of _ kws] exI[of _ tbl])
         (simp del: scan_table.simps)
  next
    case False
    with Cons.prems e have "\<exists>(cat, kws)\<in>set tbl. \<exists>kw\<in>set kws. sublist kw text" by auto
    from Cons.IH[OF this] obtain pre cat' kws' post where
      h: "tbl = pre @ (cat', kws') # post" "\<exists>kw\<in>set kws'. sublist kw text"
         "\<forall>(cat', kws')\<in>set pre. \<forall>kw\<in>set kws'. \<not> sublist kw text"
         "scan_table text tbl = Some cat'" by blast
    have "scan_table text (e # tbl) = Some cat'" using False h(4) unfolding e by (simp add: scan_kws_eq)
    with h False e show ?thesis
      by (intro exI[of _ "e # pre"] exI[of _ cat'] exI[of _ kws'] exI[of _ post])
         (simp del: scan_table.simps)
  qed
qed

lemma scan_table_member: "scan_table text tbl = Some c \<Longrightarrow> c \<in> fst ` set tbl"
  by (induction tbl) (auto simp: scan_kws_eq split: if_splits option.splits)

lemma pool_eq: "map fst keyword_table @ [lit ''General''] = pool"
  by (simp add: keyword_table_def pool_def)

lemma pool_facts:
  "distinct pool" "length pool = 5"
  "set pool = {lit ''Work'', lit ''Personal'', lit ''Study'', lit ''Idea'', lit ''General''}"
  by (simp_all add: pool_def lit_def)

lemma categorize_note_None:
  "scan_table (lower u (ttl @ lit '' '' @ cnt)) keyword_table = None \<Longrightarrow>
   categorize_note u r ttl cnt = pool ! (r mod 5)"
  by (simp add: categorize_note_def random_choice_def pool_eq) (simp add: pool_def)

lemma categorize_note_Some:
  "scan_table (lower u (ttl @ lit '' '' @ cnt)) keyword_table = Some c \<Longrightarrow>
   categorize_note u r ttl cnt = c"
  by (simp add: categorize_note_def)

lemma pool_unique_index:
  assumes "x \<in> set pool"
  shows "\<exists>!k. k < 5 \<and> pool ! (k mod 5) = x"
proof -
  note dp = pool_facts(1) and lp = pool_facts(2)
  from distinct_Ex1[OF dp assms] obtain i where
    i: "i < 5" "pool ! i = x" and uq: "\<And>j. j < 5 \<Longrightarrow> pool ! j = x \<Longrightarrow> j = i"
    unfolding lp by blast
  show ?thesis
  proof (rule ex1I[of _ i])
    show "i < 5 \<and> pool ! (i mod 5) = x" using i by simp
  next
    fix k assume a: "k < 5 \<and> pool ! (k mod 5) = x"
    then have k: "k < 5" by (rule conjunct1)
    with a have "pool ! k = x" by simp
    with k show "k = i" by (rule uq)
  qed
qed

subsection \<open>Identifiers\<close>

lemma add_note_notes:
  "self_notes (fst (add_note u r ttl cnt s)) =
     self_notes (fst s) @
       [CategorizedNote (new_id (self_notes (fst s))) ttl cnt (categorize_note u r ttl cnt)]"
  by (cases s) (simp add: add_note_def Let_def)

lemma delete_note_notes:
  "self_notes (fst (delete_note i s)) = filter (\<lambda>n. get_id n \<noteq> i) (self_notes (fst s))"
  by (cases s) (simp add: delete_note_def Let_def)

lemma new_id_snoc: "new_id (ns @ [n]) = get_id n + 1"
  by (simp add: new_id_def)

lemma new_id_above:
  assumes "sorted_wrt (<) (map get_id ns)" and "n \<in> set ns"
  shows "get_id n < new_id ns"
proof -
  from assms(2) have ne: "ns \<noteq> []" by auto
  then obtain bs b where ns: "ns = bs @ [b]" by (metis rev_exhaust)
  with assms have "get_id n \<le> get_id b"
    by (auto simp: sorted_wrt_append)
  then show ?thesis by (simp add: ns new_id_def)
qed

lemma step_sorted:
  assumes "sorted_wrt (<) (map get_id (self_notes (fst s)))"
  shows "sorted_wrt (<) (map get_id (self_notes (fst (step u c s))))"
proof (cases c)
  case (Add r ttl cnt)
  then show ?thesis
    using assms new_id_above[OF assms]
    by (auto simp: add_note_notes sorted_wrt_append)
next
  case (Delete i)
  have "sorted_wrt (<) (map get_id (filter (\<lambda>n. get_id n \<noteq> i) (self_notes (fst s))))"
    using assms by (simp add: sorted_wrt_map sorted_wrt_filter)
  then show ?thesis using Delete by (simp add: delete_note_notes)
qed

lemma run_sorted:
  "sorted_wrt (<) (map get_id (self_notes (fst s))) \<Longrightarrow>
   sorted_wrt (<) (map get_id (self_notes (fst (run u cs s))))"
  by (induction cs arbitrary: s) (simp_all add: step_sorted)

lemma new_id_Max:
  assumes "sorted_wrt (<) (map get_id ns)" and "ns \<noteq> []"
  shows "new_id ns = Max (get_id ` set ns) + 1"
proof -
  have "Max (get_id ` set ns) = get_id (last ns)"
  proof (rule Max_eqI)
    show "finite (get_id ` set ns)" by simp
    show "get_id (last ns) \<in> get_id ` set ns" using assms(2) by simp
    fix y assume "y \<in> get_id ` set ns"
    then obtain n where "n \<in> set ns" "y = get_id n" by auto
    with new_id_above[OF assms(1)] show "y \<le> get_id (last ns)"
      using assms(2) by (auto simp: new_id_def)
  qed
  then show ?thesis using assms(2) by (simp add: new_id_def)
qed

lemma filter_absent_id:
  "note_id \<notin> get_id ` set ns \<Longrightarrow> filter (\<lambda>n. get_id n \<noteq> note_id) ns = ns"
  by (induction ns) auto

lemma delete_added_note:
  assumes "sorted_wrt (<) (map get_id (self_notes (fst s)))"
  shows "self_notes (fst (delete_note (new_id (self_notes (fst s))) (add_note u r ttl cnt s)))
           = self_notes (fst s)"
proof -
  have "new_id (self_notes (fst s)) \<notin> get_id ` set (self_notes (fst s))"
    using new_id_above[OF assms] by fastforce
  then show ?thesis
    by (simp add: delete_note_notes add_note_notes filter_absent_id)
qed

lemma assigned_ids_adds:
  "assigned_ids u (adds args) s =
     map (\<lambda>k. new_id (self_notes (fst s)) + int k) [0..<length args]"
proof (induction args arbitrary: s)
  case Nil
  then show ?case by (simp add: adds_def)
next
  case (Cons a args)
  obtain r ttl cnt where a: "a = (r, ttl, cnt)" by (cases a)
  have "assigned_ids u (adds (a # args)) s =
          new_id (self_notes (fst s)) # assigned_ids u (adds args) (add_note u r ttl cnt s)"
    by (simp add: adds_def a)
  also have "assigned_ids u (adds args) (add_note u r ttl cnt s) =
          map (\<lambda>k. new_id (self_notes (fst s)) + 1 + int k) [0..<length args]"
    by (simp add: Cons.IH add_note_notes new_id_snoc)
  finally have "assigned_ids u (adds (a # args)) s =
      new_id (self_notes (fst s)) #
        map (\<lambda>k. new_id (self_notes (fst s)) + 1 + int k) [0..<length args]" .
  moreover have "[0..<length (a # args)] = 0 # map Suc [0..<length args]"
    by (simp add: upt_conv_Cons map_Suc_upt del: upt_Suc)
  ultimately show ?case by (simp add: o_def add.assoc del: upt_Suc)
qed

lemma run_adds_ids:
  "map get_id (self_notes (fst (run u (adds args) s))) =
     map get_id (self_notes (fst s)) @ assigned_ids u (adds args) s"
proof (induction args arbitrary: s)
  case Nil
  then show ?case by (simp add: adds_def)
next
  case (Cons a args)
  obtain r ttl cnt where a: "a = (r, ttl, cnt)" by (cases a)
  have "run u (adds (a # args)) s = run u (adds args) (add_note u r ttl cnt s)"
    by (simp add: adds_def a)
  moreover have "assigned_ids u (adds (a # args)) s =
          new_id (self_notes (fst s)) # assigned_ids u (adds args) (add_note u r ttl cnt s)"
    by (simp add: adds_def a)
  ultimately show ?case by (simp add: Cons.IH add_note_notes)
qed

subsection \<open>Printing and saving\<close>

lemma save_notes_logged: "write_log (save_notes org w) = write_log w @ [file_path org]"
  by (simp add: save_notes_def Let_def print_def)

lemma print_all_stdout: "print_all ms w = w \<lparr>stdout := stdout w @ ms\<rparr>"
  by (induction ms arbitrary: w) (simp_all add: print_def)

lemma load_item_to_dict: "load_item (to_dict n) = Inr (reloaded n)"
  by (cases n)
     (simp_all add: load_item_def getitem_def reloaded_def Note_to_dict_def
        CategorizedNote_to_dict_def)

lemma load_items_to_dict:
  "load_items (map to_dict ns) acc = Inr (acc @ map reloaded ns)"
  by (induction ns arbitrary: acc) (simp_all add: load_item_to_dict)

lemma reloaded_fields:
  "get_id (reloaded n) = get_id n" "title (reloaded n) = title n"
  "content (reloaded n) = content n" "category (reloaded n) = category n"
  by (cases n; simp add: reloaded_def)+

subsection \<open>Listing and searching\<close>


lemma view_notes_empty:
  "view_notes u (Some []) (org, w) =
     (org, w \<lparr>stdout := stdout w @
        HeaderAll # (if self_notes org = [] then [NoNotesFound]
                     else concat (map (\<lambda>n. [Display n, Separator]) (self_notes org)))\<rparr>)"
  by (simp add: view_notes_def filtered_notes_def Let_def print_all_stdout print_def display_all_def)







section \<open>Identifiers\<close>

text \<open>
  C1 (as the code has it). Start from a collection whose IDs increase strictly in the
  order of the collection, the empty one for instance, and run any session of adds
  and deletes. In the collection reached, \<open>add_note\<close> appends a note whose ID is the
  ID of the last note plus one, or 1 if the collection is empty; this is the greatest
  ID present plus one, it is greater than every ID present, and the IDs of the
  collection stay pairwise different. Deleted IDs are not remembered: when the note
  just added is deleted, the collection is as it was before the add, and the next add
  assigns the same ID again.
\<close>

theorem add_note_id_reachable:
  assumes "sorted_wrt (<) (map get_id (self_notes (fst s0)))"
  shows "self_notes (fst (add_note u r ttl cnt (run u cs s0))) =
           self_notes (fst (run u cs s0)) @
             [CategorizedNote (new_id (self_notes (fst (run u cs s0)))) ttl cnt
                (categorize_note u r ttl cnt)]
         \<and> new_id (self_notes (fst (run u cs s0))) =
             (if self_notes (fst (run u cs s0)) = [] then 1
              else get_id (last (self_notes (fst (run u cs s0)))) + 1)
         \<and> new_id (self_notes (fst (run u cs s0))) =
             (if self_notes (fst (run u cs s0)) = [] then 1
              else Max (get_id ` set (self_notes (fst (run u cs s0)))) + 1)
         \<and> (\<forall>n \<in> set (self_notes (fst (run u cs s0))).
               get_id n < new_id (self_notes (fst (run u cs s0))))
         \<and> distinct (map get_id (self_notes (fst (add_note u r ttl cnt (run u cs s0)))))
         \<and> self_notes (fst (delete_note (new_id (self_notes (fst (run u cs s0))))
               (add_note u r ttl cnt (run u cs s0)))) = self_notes (fst (run u cs s0))
         \<and> self_notes (fst (add_note u r2 ttl2 cnt2
               (delete_note (new_id (self_notes (fst (run u cs s0))))
                  (add_note u r ttl cnt (run u cs s0))))) =
             self_notes (fst (run u cs s0)) @
               [CategorizedNote (new_id (self_notes (fst (run u cs s0)))) ttl2 cnt2
                  (categorize_note u r2 ttl2 cnt2)]"
proof -
  let ?ns = "self_notes (fst (run u cs s0))"
  have srt: "sorted_wrt (<) (map get_id ?ns)"
    by (rule run_sorted) (rule assms)
  have srt': "sorted_wrt (<) (map get_id (self_notes (fst (step u (Add r ttl cnt) (run u cs s0)))))"
    by (rule step_sorted) (rule srt)
  have d: "distinct (map get_id (self_notes (fst (add_note u r ttl cnt (run u cs s0)))))"
    using srt' by (metis step.simps(1) strict_sorted_iff)
  have m: "new_id ?ns = (if ?ns = [] then 1 else Max (get_id ` set ?ns) + 1)"
    using new_id_Max[OF srt] by (simp add: new_id_def)
  have a: "\<forall>n \<in> set ?ns. get_id n < new_id ?ns"
    using new_id_above[OF srt] by blast
  have e: "self_notes (fst (delete_note (new_id ?ns) (add_note u r ttl cnt (run u cs s0)))) = ?ns"
    by (rule delete_added_note) (rule srt)
  have f: "self_notes (fst (add_note u r2 ttl2 cnt2
               (delete_note (new_id ?ns) (add_note u r ttl cnt (run u cs s0))))) =
             ?ns @ [CategorizedNote (new_id ?ns) ttl2 cnt2 (categorize_note u r2 ttl2 cnt2)]"
    by (simp only: add_note_notes[of u r2 ttl2 cnt2] e)
  have l: "new_id ?ns = (if ?ns = [] then 1 else get_id (last ?ns) + 1)"
    by (simp add: new_id_def)
  show ?thesis
    by (rule conjI[OF add_note_notes conjI[OF l conjI[OF m conjI[OF a conjI[OF d
          conjI[OF e f]]]]]])
qed

text \<open>
  Two adds, the first note deleted, then a third add: it gets the ID 3.
\<close>

theorem add_note_id_reachable_witness:
  "sorted_wrt (<) (map get_id
      (self_notes (fst (\<lparr>file_path = ''notes.json'', self_notes = []\<rparr>, empty_world))))
   \<and> self_notes (fst (add_note greek 0 (lit ''gym'') (lit ''legs'')
        (run greek [Add 0 (lit ''team meeting'') (lit ''''), Add 0 (lit ''exam'') (lit ''maths''),
                    Delete 1]
           (\<lparr>file_path = ''notes.json'', self_notes = []\<rparr>, empty_world)))) =
      [CategorizedNote 2 (lit ''exam'') (lit ''maths'') (lit ''Study''),
       CategorizedNote 3 (lit ''gym'') (lit ''legs'') (lit ''Personal'')]"
proof -
  have c: "categorize_note greek 0 (lit ''exam'') (lit ''maths'') = lit ''Study''"
    "categorize_note greek 0 (lit ''gym'') (lit ''legs'') = lit ''Personal''"
    by code_simp+
  show ?thesis
    using add_note_id_reachable[of "(\<lparr>file_path = ''notes.json'', self_notes = []\<rparr>, empty_world)"
       greek 0 "lit ''gym''" "lit ''legs''"
       "[Add 0 (lit ''team meeting'') (lit ''''), Add 0 (lit ''exam'') (lit ''maths''), Delete 1]"
       0 "[]" "[]"]
    by (simp add: add_note_notes delete_note_notes new_id_def c)
qed

text \<open>
  An ID comes back once the last note is deleted: after two adds the IDs are 1 and 2;
  deleting note 2 leaves note 1, and the next add assigns 2 again. And in a collection
  loaded from a file whose records are not in increasing order of ID, here 2 before 1,
  the ID assigned is not the greatest ID plus one: it is 2 once more.
\<close>

theorem id_reuse_counterexample:
  "map get_id (self_notes (fst (run greek [Add 0 (lit ''a'') (lit ''b''), Add 0 (lit ''c'') (lit ''d'')]
     (\<lparr>file_path = ''notes.json'', self_notes = []\<rparr>, empty_world)))) = [1, 2]
   \<and> map get_id (self_notes (fst (run greek
        [Add 0 (lit ''a'') (lit ''b''), Add 0 (lit ''c'') (lit ''d''), Delete 2]
     (\<lparr>file_path = ''notes.json'', self_notes = []\<rparr>, empty_world)))) = [1]
   \<and> assigned_ids greek
        [Add 0 (lit ''a'') (lit ''b''), Add 0 (lit ''c'') (lit ''d''), Delete 2,
         Add 0 (lit ''e'') (lit ''f'')]
     (\<lparr>file_path = ''notes.json'', self_notes = []\<rparr>, empty_world) = [1, 2, 2]
   \<and> new_id [Note 2 (lit ''a'') (lit ''b''), Note 1 (lit ''c'') (lit ''d'')] = 2
   \<and> Max (get_id ` set [Note 2 (lit ''a'') (lit ''b''), Note 1 (lit ''c'') (lit ''d'')]) + 1 = 3"
  by (simp add: add_note_notes delete_note_notes new_id_def)

text \<open>
  C6. Any number of adds in a row, starting from an empty collection, assign the IDs
  1, 2, 3 and so on in this order, whatever the titles, the contents and the random
  draws are, and the collection then holds exactly these IDs in this order.
\<close>

theorem add_ids_sequential:
  assumes "self_notes (fst s) = []"
  shows "assigned_ids u (adds args) s = map int [1..<Suc (length args)]
         \<and> map get_id (self_notes (fst (run u (adds args) s))) = map int [1..<Suc (length args)]"
proof -
  have "new_id (self_notes (fst s)) = 1" by (simp add: assms new_id_def)
  then have "assigned_ids u (adds args) s = map (\<lambda>k. 1 + int k) [0..<length args]"
    by (simp add: assigned_ids_adds)
  also have "\<dots> = map int (map Suc [0..<length args])" by (simp add: o_def)
  also have "\<dots> = map int [1..<Suc (length args)]" by (simp add: map_Suc_upt del: upt_Suc)
  finally have a: "assigned_ids u (adds args) s = map int [1..<Suc (length args)]" .
  then show ?thesis by (simp add: run_adds_ids assms del: upt_Suc)
qed

text \<open>
  Three adds, one of them on the random path.
\<close>

theorem add_ids_sequential_witness:
  "self_notes (fst (\<lparr>file_path = ''notes.json'', self_notes = []\<rparr>, empty_world)) = []
   \<and> assigned_ids greek
        (adds [(0, lit ''team meeting'', lit ''''), (3, lit ''zzz'', lit ''qqq''),
               (1, lit ''gym'', lit ''x'')])
        (\<lparr>file_path = ''notes.json'', self_notes = []\<rparr>, empty_world) = [1, 2, 3]"
  using add_ids_sequential[of "(\<lparr>file_path = ''notes.json'', self_notes = []\<rparr>, empty_world)"
     greek "[(0, lit ''team meeting'', lit ''''), (3, lit ''zzz'', lit ''qqq''),
             (1, lit ''gym'', lit ''x'')]"]
  by (simp add: upt_rec)

section \<open>Saving and loading\<close>

text \<open>
  C2 (as the code has it). Where \<open>_save_notes\<close> runs without an \<open>IOError\<close>, neither
  at the open nor while writing, and the path can then be opened for reading,
  \<open>_load_notes\<close> on the same path returns, without printing anything, a collection
  with the same IDs, titles, contents and categories in the same order; a note
  without a category comes back without one.
\<close>

theorem save_load_roundtrip:
  assumes "\<not> unwritable w (file_path org)" and "\<not> write_error w (file_path org)"
    and "\<not> unreadable w (file_path org)"
  shows "\<exists>ns'. load_notes (file_path org) (save_notes org w) = (Inr ns', save_notes org w)
           \<and> map get_id ns' = map get_id (self_notes org)
           \<and> map title ns' = map title (self_notes org)
           \<and> map content ns' = map content (self_notes org)
           \<and> map category ns' = map category (self_notes org)"
proof -
  have "load_notes (file_path org) (save_notes org w) =
           (Inr (map reloaded (self_notes org)), save_notes org w)"
    using assms by (simp add: load_notes_def save_notes_def Let_def load_items_to_dict)
  then show ?thesis
    by (intro exI[of _ "map reloaded (self_notes org)"]) (simp add: reloaded_fields)
qed

text \<open>
  A legacy note without a category and a categorized note, saved and loaded.
\<close>

theorem save_load_roundtrip_witness:
  "\<exists>ns'. load_notes ''notes.json'' (save_notes \<lparr>file_path = ''notes.json'', self_notes =
        [Note 1 (lit ''old'') (lit ''legacy''),
         CategorizedNote 2 (lit ''gym'') (lit ''legs'') (lit ''Personal'')]\<rparr> empty_world)
      = (Inr ns', save_notes \<lparr>file_path = ''notes.json'', self_notes =
        [Note 1 (lit ''old'') (lit ''legacy''),
         CategorizedNote 2 (lit ''gym'') (lit ''legs'') (lit ''Personal'')]\<rparr> empty_world)
      \<and> map get_id ns' = [1, 2]
      \<and> map title ns' = [lit ''old'', lit ''gym'']
      \<and> map content ns' = [lit ''legacy'', lit ''legs'']
      \<and> map category ns' = [None, Some (lit ''Personal'')]"
  using save_load_roundtrip[of empty_world "\<lparr>file_path = ''notes.json'', self_notes =
        [Note 1 (lit ''old'') (lit ''legacy''),
         CategorizedNote 2 (lit ''gym'') (lit ''legs'') (lit ''Personal'')]\<rparr>"]
  by (simp add: empty_world_def)

text \<open>
  Where the path cannot be opened for writing, \<open>_save_notes\<close> prints the error; the
  load then finds no file and returns the empty list, though one note was saved.
\<close>

theorem save_failure_counterexample:
  "fst (load_notes ''/no/such/dir/notes.json''
     (save_notes \<lparr>file_path = ''/no/such/dir/notes.json'',
                  self_notes = [Note 1 (lit ''a'') (lit ''b'')]\<rparr>
        (empty_world \<lparr>unwritable := (\<lambda>p. p = ''/no/such/dir/notes.json'')\<rparr>))) = Inr []"
  by (simp add: load_notes_def save_notes_def Let_def print_def empty_world_def)

text \<open>
  Where the writing fails after the open, the file is left cut short: the load
  prints its error and returns the empty list as well.
\<close>

lemma save_write_error_example:
  "load_notes ''notes.json''
     (save_notes \<lparr>file_path = ''notes.json'', self_notes = [Note 1 (lit ''a'') (lit ''b'')]\<rparr>
        (empty_world \<lparr>write_error := (\<lambda>p. p = ''notes.json'')\<rparr>))
   = (Inr [], empty_world \<lparr>files := (\<lambda>p. if p = ''notes.json'' then Some Malformed else None),
        write_error := (\<lambda>p. p = ''notes.json''), write_log := [''notes.json''],
        stdout := [ErrorSaving, ErrorLoading]\<rparr>)"
  by (simp add: load_notes_def save_notes_def Let_def print_def empty_world_def fun_eq_iff)

section \<open>Categorization\<close>

text \<open>
  C3 (as the code has it). The text that is searched is the lower case of the title,
  one space and the content. If some keyword of the table occurs in it,
  \<open>_categorize_note\<close> returns the category of the first table entry, in the order
  Work, Personal, Study, Idea, one of whose keywords occurs: no keyword of an earlier
  entry occurs. So "team meeting tomorrow" is Work, and so is "family meeting", which
  holds a keyword of Personal too.
\<close>

theorem categorize_first_match:
  "((\<exists>(cat, kws) \<in> set keyword_table. \<exists>kw \<in> set kws.
        sublist kw (lower u (ttl @ lit '' '' @ cnt))) \<longrightarrow>
      (\<exists>pre cat kws post.
          keyword_table = pre @ (cat, kws) # post
          \<and> (\<exists>kw \<in> set kws. sublist kw (lower u (ttl @ lit '' '' @ cnt)))
          \<and> (\<forall>(cat', kws') \<in> set pre. \<forall>kw \<in> set kws'.
                \<not> sublist kw (lower u (ttl @ lit '' '' @ cnt)))
          \<and> categorize_note u r ttl cnt = cat))
   \<and> map fst keyword_table = [lit ''Work'', lit ''Personal'', lit ''Study'', lit ''Idea'']
   \<and> categorize_note u r (lit ''team meeting tomorrow'') (lit '''') = lit ''Work''
   \<and> categorize_note u r (lit ''family meeting'') (lit '''') = lit ''Work''"
proof -
  have a: "(\<exists>(cat, kws) \<in> set keyword_table. \<exists>kw \<in> set kws.
        sublist kw (lower u (ttl @ lit '' '' @ cnt))) \<longrightarrow>
      (\<exists>pre cat kws post.
          keyword_table = pre @ (cat, kws) # post
          \<and> (\<exists>kw \<in> set kws. sublist kw (lower u (ttl @ lit '' '' @ cnt)))
          \<and> (\<forall>(cat', kws') \<in> set pre. \<forall>kw \<in> set kws'.
                \<not> sublist kw (lower u (ttl @ lit '' '' @ cnt)))
          \<and> categorize_note u r ttl cnt = cat)"
  proof (rule impI)
    assume "\<exists>(cat, kws) \<in> set keyword_table. \<exists>kw \<in> set kws.
        sublist kw (lower u (ttl @ lit '' '' @ cnt))"
    from scan_table_first[OF this] obtain pre cat kws post where
      h: "keyword_table = pre @ (cat, kws) # post"
         "\<exists>kw \<in> set kws. sublist kw (lower u (ttl @ lit '' '' @ cnt))"
         "\<forall>(cat', kws') \<in> set pre. \<forall>kw \<in> set kws'.
             \<not> sublist kw (lower u (ttl @ lit '' '' @ cnt))"
         "scan_table (lower u (ttl @ lit '' '' @ cnt)) keyword_table = Some cat" by blast
    from h(4) have "categorize_note u r ttl cnt = cat"
      by (rule categorize_note_Some)
    with h(1,2,3) show "\<exists>pre cat kws post.
          keyword_table = pre @ (cat, kws) # post
          \<and> (\<exists>kw \<in> set kws. sublist kw (lower u (ttl @ lit '' '' @ cnt)))
          \<and> (\<forall>(cat', kws') \<in> set pre. \<forall>kw \<in> set kws'.
                \<not> sublist kw (lower u (ttl @ lit '' '' @ cnt)))
          \<and> categorize_note u r ttl cnt = cat" by blast
  qed
  have b: "map fst keyword_table = [lit ''Work'', lit ''Personal'', lit ''Study'', lit ''Idea'']"
    by (simp add: keyword_table_def)
  have t1: "scan_table (lower u (lit ''team meeting tomorrow'' @ lit '' '' @ lit ''''))
              keyword_table = Some (lit ''Work'')"
    by code_simp
  have t2: "scan_table (lower u (lit ''family meeting'' @ lit '' '' @ lit ''''))
              keyword_table = Some (lit ''Work'')"
    by code_simp
  have c: "categorize_note u r (lit ''team meeting tomorrow'') (lit '''') = lit ''Work''"
    using t1 by (rule categorize_note_Some)
  have d: "categorize_note u r (lit ''family meeting'') (lit '''') = lit ''Work''"
    using t2 by (rule categorize_note_Some)
  show ?thesis by (rule conjI[OF a conjI[OF b conjI[OF c d]]])
qed

text \<open>
  A title with a keyword of Personal and one of Study: Personal is earlier.
\<close>

theorem categorize_first_match_witness:
  "(\<exists>(cat, kws) \<in> set keyword_table. \<exists>kw \<in> set kws.
       sublist kw (lower greek (lit ''Gym after the EXAM'' @ lit '' '' @ lit ''bring notes'')))
   \<and> categorize_note greek 3 (lit ''Gym after the EXAM'') (lit ''bring notes'') = lit ''Personal''"
proof -
  have h: "\<exists>(cat, kws) \<in> set keyword_table. \<exists>kw \<in> set kws.
       sublist kw (lower greek (lit ''Gym after the EXAM'' @ lit '' '' @ lit ''bring notes''))"
    by code_simp
  have e: "categorize_note greek 3 (lit ''Gym after the EXAM'') (lit ''bring notes'') = lit ''Personal''"
    by code_simp
  show ?thesis
    using h e categorize_first_match[of greek "lit ''Gym after the EXAM''" "lit ''bring notes''" 3]
    by blast
qed

text \<open>
  A keyword that only the title and the content put end to end spell is not found,
  since the space separates them: for the title "mee" and the content "ting" the
  keyword "meeting" of Work occurs in the concatenation, and the result is drawn at
  random; with the draw 4 it is General, which is no category of the table.
\<close>

theorem categorize_split_keyword_counterexample:
  "lit ''meeting'' \<in> set (snd (keyword_table ! 0))
   \<and> sublist (lit ''meeting'') (lower greek (lit ''mee'' @ lit ''ting''))
   \<and> categorize_note greek 4 (lit ''mee'') (lit ''ting'') = lit ''General''
   \<and> lit ''General'' \<notin> set (map fst keyword_table)"
  by code_simp

text \<open>
  C5. If no keyword of the table occurs in the lower-cased concatenation of title and
  content, none occurs in the text that is searched either (no keyword has a space),
  and \<open>_categorize_note\<close> returns the element of the list Work, Personal, Study,
  Idea, General at the index drawn; each of the five is the result for exactly one
  index below five, so that a uniform draw gives a uniform category. Whatever the
  input is, the result is one of these five.
\<close>

theorem categorize_no_match:
  "((\<forall>(cat, kws) \<in> set keyword_table. \<forall>kw \<in> set kws. \<not> sublist kw (lower u (ttl @ cnt))) \<longrightarrow>
       categorize_note u r ttl cnt = pool ! (r mod 5)
       \<and> (\<forall>c \<in> set pool. \<exists>!k. k < 5 \<and> categorize_note u k ttl cnt = c))
   \<and> categorize_note u r ttl cnt \<in>
        {lit ''Work'', lit ''Personal'', lit ''Study'', lit ''Idea'', lit ''General''}
   \<and> set pool = {lit ''Work'', lit ''Personal'', lit ''Study'', lit ''Idea'', lit ''General''}
   \<and> distinct pool \<and> length pool = 5"
proof -
  note dp = pool_facts(1) and lp = pool_facts(2) and sp = pool_facts(3)
  have a: "(\<forall>(cat, kws) \<in> set keyword_table. \<forall>kw \<in> set kws.
              \<not> sublist kw (lower u (ttl @ cnt))) \<longrightarrow>
       categorize_note u r ttl cnt = pool ! (r mod 5)
       \<and> (\<forall>c \<in> set pool. \<exists>!k. k < 5 \<and> categorize_note u k ttl cnt = c)"
  proof (rule impI)
    assume h: "\<forall>(cat, kws) \<in> set keyword_table. \<forall>kw \<in> set kws.
                 \<not> sublist kw (lower u (ttl @ cnt))"
    have "\<forall>(cat, kws) \<in> set keyword_table. \<forall>kw \<in> set kws.
            \<not> sublist kw (lower u (ttl @ lit '' '' @ cnt))"
      using h keyword_in_text by blast
    then have n: "scan_table (lower u (ttl @ lit '' '' @ cnt)) keyword_table = None"
      by (simp only: scan_table_None)
    have c: "categorize_note u k ttl cnt = pool ! (k mod 5)" for k
      using n by (rule categorize_note_None)
    have "\<forall>x \<in> set pool. \<exists>!k. k < 5 \<and> categorize_note u k ttl cnt = x"
      unfolding c using pool_unique_index by (rule ballI)
    with c show "categorize_note u r ttl cnt = pool ! (r mod 5)
       \<and> (\<forall>c \<in> set pool. \<exists>!k. k < 5 \<and> categorize_note u k ttl cnt = c)"
      by (rule conjI)
  qed
  have b: "categorize_note u r ttl cnt \<in> set pool"
  proof (cases "scan_table (lower u (ttl @ lit '' '' @ cnt)) keyword_table")
    case None
    then have "categorize_note u r ttl cnt = pool ! (r mod 5)"
      by (rule categorize_note_None)
    moreover have "pool ! (r mod 5) \<in> set pool" by (rule nth_mem) (simp add: lp)
    ultimately show ?thesis by (simp only:)
  next
    case (Some c)
    then have "categorize_note u r ttl cnt = c" by (rule categorize_note_Some)
    moreover from scan_table_member[OF Some] have "c \<in> set (map fst keyword_table)" by simp
    then have "c \<in> set pool" unfolding pool_eq[symmetric] by simp
    ultimately show ?thesis by (simp only:)
  qed
  from b have b': "categorize_note u r ttl cnt \<in>
        {lit ''Work'', lit ''Personal'', lit ''Study'', lit ''Idea'', lit ''General''}"
    unfolding sp .
  show ?thesis
    by (rule conjI[OF a conjI[OF b' conjI[OF sp conjI[OF dp lp]]]])
qed

text \<open>
  A text without any keyword, with two different draws.
\<close>

theorem categorize_no_match_witness:
  "categorize_note greek 7 (lit ''Hello'') (lit ''World'') = lit ''Study''
   \<and> categorize_note greek 9 (lit ''Hello'') (lit ''World'') = lit ''General''"
proof -
  have h: "\<forall>(cat, kws) \<in> set keyword_table. \<forall>kw \<in> set kws.
             \<not> sublist kw (lower greek (lit ''Hello'' @ lit ''World''))"
    by code_simp
  have p: "pool ! (7 mod 5) = lit ''Study''" "pool ! (9 mod 5) = lit ''General''"
    by (simp_all add: pool_def)
  have a: "categorize_note greek 7 (lit ''Hello'') (lit ''World'') = lit ''Study''"
    using categorize_no_match[of greek "lit ''Hello''" "lit ''World''" 7,
        THEN conjunct1, THEN mp, OF h, THEN conjunct1]
    by (simp only: p)
  have b: "categorize_note greek 9 (lit ''Hello'') (lit ''World'') = lit ''General''"
    using categorize_no_match[of greek "lit ''Hello''" "lit ''World''" 9,
        THEN conjunct1, THEN mp, OF h, THEN conjunct1]
    by (simp only: p)
  show ?thesis by (rule conjI[OF a b])
qed

text \<open>
  C9 (as the code has it). If some keyword of the table occurs in the lower case of
  the title, one space and the content, the result does not depend on the random
  draw: two runs on the same title and content return the same category.
\<close>

theorem categorize_deterministic:
  assumes "\<exists>(cat, kws) \<in> set keyword_table. \<exists>kw \<in> set kws.
             sublist kw (lower u (ttl @ lit '' '' @ cnt))"
  shows "categorize_note u r1 ttl cnt = categorize_note u r2 ttl cnt"
proof -
  from scan_table_first[OF assms] obtain cat where
    "scan_table (lower u (ttl @ lit '' '' @ cnt)) keyword_table = Some cat" by blast
  then show ?thesis by (simp add: categorize_note_Some)
qed

text \<open>
  A title with a keyword of Idea, with two different draws.
\<close>

theorem categorize_deterministic_witness:
  "(\<exists>(cat, kws) \<in> set keyword_table. \<exists>kw \<in> set kws.
       sublist kw (lower greek (lit ''Brainstorm'' @ lit '' '' @ lit ''new app'')))
   \<and> categorize_note greek 0 (lit ''Brainstorm'') (lit ''new app'')
       = categorize_note greek 4 (lit ''Brainstorm'') (lit ''new app'')"
proof -
  have h: "\<exists>(cat, kws) \<in> set keyword_table. \<exists>kw \<in> set kws.
       sublist kw (lower greek (lit ''Brainstorm'' @ lit '' '' @ lit ''new app''))"
    by code_simp
  show ?thesis
    using h categorize_deterministic[OF h, of 0 4] by blast
qed

text \<open>
  For the title "ex" and the content "am" the keyword "exam" of Study occurs in the
  concatenation, and two runs differ: Work with the draw 0, General with the draw 4.
\<close>

theorem categorize_nondeterministic_counterexample:
  "lit ''exam'' \<in> set (snd (keyword_table ! 2))
   \<and> sublist (lit ''exam'') (lower greek (lit ''ex'' @ lit ''am''))
   \<and> categorize_note greek 0 (lit ''ex'') (lit ''am'') = lit ''Work''
   \<and> categorize_note greek 4 (lit ''ex'') (lit ''am'') = lit ''General''"
  by code_simp

section \<open>Deleting\<close>

text \<open>
  C4. If no note of the collection has the ID, \<open>delete_note\<close> prints that the note
  was not found and changes nothing else: the collection is the same list, no path is
  opened for writing (every run of \<open>_save_notes\<close> opens one, see \<open>save_notes_logged\<close>)
  and the files are as before.
\<close>

theorem delete_note_not_found:
  assumes "note_id \<notin> get_id ` set (self_notes org)"
  shows "delete_note note_id (org, w) = (org, print (NotFoundMsg note_id) w)
         \<and> self_notes (fst (delete_note note_id (org, w))) = self_notes org
         \<and> stdout (snd (delete_note note_id (org, w))) = stdout w @ [NotFoundMsg note_id]
         \<and> write_log (snd (delete_note note_id (org, w))) = write_log w
         \<and> files (snd (delete_note note_id (org, w))) = files w"
proof -
  have "delete_note note_id (org, w) = (org, print (NotFoundMsg note_id) w)"
    by (simp add: delete_note_def filter_absent_id[OF assms])
  then show ?thesis by (simp add: print_def)
qed

text \<open>
  Deleting the ID 7 from a collection with the IDs 1 and 2.
\<close>

theorem delete_note_not_found_witness:
  "7 \<notin> get_id ` set (self_notes \<lparr>file_path = ''notes.json'',
        self_notes = [Note 1 (lit ''a'') (lit ''b''),
                      CategorizedNote 2 (lit ''c'') (lit ''d'') (lit ''Work'')]\<rparr>)
   \<and> delete_note 7 (\<lparr>file_path = ''notes.json'',
        self_notes = [Note 1 (lit ''a'') (lit ''b''),
                      CategorizedNote 2 (lit ''c'') (lit ''d'') (lit ''Work'')]\<rparr>, empty_world)
     = (\<lparr>file_path = ''notes.json'',
        self_notes = [Note 1 (lit ''a'') (lit ''b''),
                      CategorizedNote 2 (lit ''c'') (lit ''d'') (lit ''Work'')]\<rparr>,
        empty_world \<lparr>stdout := [NotFoundMsg 7]\<rparr>)"
  using delete_note_not_found[of 7 "\<lparr>file_path = ''notes.json'',
        self_notes = [Note 1 (lit ''a'') (lit ''b''),
                      CategorizedNote 2 (lit ''c'') (lit ''d'') (lit ''Work'')]\<rparr>" empty_world]
  by (simp add: print_def empty_world_def)

section \<open>Searching and listing\<close>








text \<open>
  C10. The empty string as filter is no filter: \<open>view_notes\<close> then prints the header
  of the unfiltered list and every note of the collection, in order, each followed by
  the separator (or its message if the collection is empty), exactly as it does
  without a filter.
\<close>

theorem view_notes_empty_filter:
  "view_notes u (Some []) (org, w) =
     (org, w \<lparr>stdout := stdout w @
        HeaderAll # (if self_notes org = [] then [NoNotesFound]
                     else concat (map (\<lambda>n. [Display n, Separator]) (self_notes org)))\<rparr>)
   \<and> view_notes u (Some []) s = view_notes u None s
   \<and> filtered_notes u (Some []) ns = ns"
proof -
  have b: "view_notes u (Some []) s = view_notes u None s"
    by (simp add: view_notes_def filtered_notes_def)
  have c: "filtered_notes u (Some []) ns = ns"
    by (simp add: filtered_notes_def)
  show ?thesis by (rule conjI[OF view_notes_empty conjI[OF b c]])
qed

end
